theory Spec2Isabelle
  imports Complex_Main
begin

section \<open>JavaScript values, errors and the configuration\<close>

text \<open>
  The values that flow through \<open>EmailService\<close>: whatever \<open>response.json()\<close> parses
  (null, booleans, numbers, strings, arrays, objects) and the \<open>Date\<close> objects that
  \<open>sendEmail\<close> builds from them. An object is its list of properties; \<open>JDate v\<close> is
  \<open>new Date(v)\<close>. A number is given by its value, a rational (every double is one).
\<close>

datatype jsval =
    JNull
  | JBool bool
  | JNum rat
  | JStr string
  | JArr "jsval list"
  | JObj "(string \<times> jsval) list"
  | JDate jsval

datatype js_error = Error string

text \<open>
  The parts of \<open>Config\<close> that the email service reads (config/config.js):
  \<open>Config.backend?.apiUrl\<close> (\<open>None\<close> when it is \<open>undefined\<close>),
  \<open>Config.email.batchSize\<close> and \<open>Config.email.delayBetweenBatches\<close>, both
  integers. \<open>Config\<close> itself is the object of the repository.
\<close>

record config =
  backend_apiUrl :: "string option"
  email_batchSize :: int
  email_delayBetweenBatches :: int

definition Config :: config where
  "Config = \<lparr> backend_apiUrl = Some ''/api/send-email'',
              email_batchSize = 10,
              email_delayBetweenBatches = 1000 \<rparr>"

text \<open>JavaScript truthiness; \<open>None\<close> stands for \<open>undefined\<close>.\<close>

fun truthy :: "jsval \<Rightarrow> bool" where
  "truthy JNull = False"
| "truthy (JBool b) = b"
| "truthy (JNum n) = (n \<noteq> 0)"
| "truthy (JStr s) = (s \<noteq> [])"
| "truthy (JArr _) = True"
| "truthy (JObj _) = True"
| "truthy (JDate _) = True"

fun truthy_opt :: "jsval option \<Rightarrow> bool" where
  "truthy_opt None = False"
| "truthy_opt (Some v) = truthy v"

text \<open>
  Reading a property \<open>v.name\<close> for the names the service reads (\<open>sentAt\<close>,
  \<open>attemptedAt\<close>, \<open>success\<close>): on \<open>null\<close> it throws a TypeError, on an object it is
  the property or \<open>undefined\<close>, on every other value it is \<open>undefined\<close>.
\<close>

fun get_prop :: "jsval \<Rightarrow> string \<Rightarrow> js_error + jsval option" where
  "get_prop JNull name = Inl (Error (''Cannot read properties of null (reading '' @ name @ '')''))"
| "get_prop (JObj kvs) name = Inr (map_of kvs name)"
| "get_prop _ name = Inr None"

fun set_field :: "string \<Rightarrow> jsval \<Rightarrow> (string \<times> jsval) list \<Rightarrow> (string \<times> jsval) list" where
  "set_field name v [] = [(name, v)]"
| "set_field name v ((k, x) # kvs) =
     (if k = name then (k, v) # kvs else (k, x) # set_field name v kvs)"

fun set_prop :: "jsval \<Rightarrow> string \<Rightarrow> jsval \<Rightarrow> jsval" where
  "set_prop (JObj kvs) name v = JObj (set_field name v kvs)"
| "set_prop r name v = r"

section \<open>The world outside the service\<close>

record request =
  req_toEmail :: string
  req_subject :: string
  req_body :: string

text \<open>
  What one \<open>fetch\<close> does: it rejects, or it resolves with a response whose
  \<open>json()\<close> rejects, or whose \<open>json()\<close> resolves with a parsed value.
\<close>

datatype response =
    FetchRejects js_error
  | JsonRejects js_error
  | JsonBody jsval

text \<open>
  The environment is a parameter: the answer to the \<open>k\<close>-th fetch of the session for a
  given URL and payload, and the clock read by \<open>new Date()\<close> in that call.
\<close>

record world =
  fetch :: "nat \<Rightarrow> string \<Rightarrow> request \<Rightarrow> response"
  now :: "nat \<Rightarrow> rat"

record progress =
  p_processed :: int
  p_total :: int
  p_success :: int
  p_failure :: int

text \<open>
  The effects of a run, in program order: a fetch is issued, the run awaits
  \<open>Promise.all\<close> over so many promises, the progress callback is called, a timer is
  set with \<open>setTimeout\<close>.
\<close>

datatype event =
    FetchCall string request
  | AwaitAll nat
  | ProgressCall progress
  | SetTimeout int

text \<open>
  \<open>EmailService.results\<close> together with the effects so far and the number of fetches
  issued so far.
\<close>

record state =
  results_success :: "jsval list"
  results_failure :: "jsval list"
  events :: "event list"
  calls :: nat

section \<open>sendEmail\<close>

definition strip_trailing_slash :: "string \<Rightarrow> string" where
  \<comment> \<open>\<open>s.replace(/\/$/, '')\<close>\<close>
  "strip_trailing_slash s = (if s \<noteq> [] \<and> last s = CHR ''/'' then butlast s else s)"

definition backendApiUrl :: "config \<Rightarrow> string" where
  "backendApiUrl cfg =
     strip_trailing_slash
       (case backend_apiUrl cfg of
          None \<Rightarrow> ''/api/send-email''
        | Some u \<Rightarrow> if u \<noteq> [] then u else ''/api/send-email'')"

text \<open>The \<open>try\<close> block of \<open>sendEmail\<close>; \<open>Inl\<close> is a throw inside it.\<close>

definition sendEmail_try :: "world \<Rightarrow> nat \<Rightarrow> string \<Rightarrow> request \<Rightarrow> js_error + jsval" where
  "sendEmail_try w k url req =
     (case fetch w k url req of
        FetchRejects e \<Rightarrow> Inl e
      | JsonRejects e \<Rightarrow> Inl e
      | JsonBody result \<Rightarrow>
          (case get_prop result ''sentAt'' of
             Inl e \<Rightarrow> Inl e
           | Inr sentAt \<Rightarrow>
               let result1 =
                     (case sentAt of
                        Some v \<Rightarrow> if truthy v then set_prop result ''sentAt'' (JDate v) else result
                      | None \<Rightarrow> result)
               in (case get_prop result1 ''attemptedAt'' of
                     Inl e \<Rightarrow> Inl e
                   | Inr attemptedAt \<Rightarrow>
                       Inr (case attemptedAt of
                              Some v \<Rightarrow>
                                if truthy v then set_prop result1 ''attemptedAt'' (JDate v)
                                else result1
                            | None \<Rightarrow> result1))))"

text \<open>The object built by the \<open>catch\<close> block.\<close>

definition network_failure :: "world \<Rightarrow> nat \<Rightarrow> request \<Rightarrow> js_error \<Rightarrow> jsval" where
  "network_failure w k req err =
     (case err of Error message \<Rightarrow>
        JObj [(''success'', JBool False),
              (''email'', JStr (req_toEmail req)),
              (''subject'', JStr (req_subject req)),
              (''attemptedAt'', JDate (JNum (now w k))),
              (''errorMessage'',
                 JStr (if message \<noteq> [] then message
                       else ''Network error or API connection failed'')),
              (''errorCode'', JStr ''NETWORK_ERROR'')])"

text \<open>
  \<open>sendEmail\<close>: how its promise settles (\<open>Inl\<close> rejected, \<open>Inr\<close> fulfilled) for the
  \<open>k\<close>-th fetch of the session.
\<close>

definition sendEmail_settle ::
  "config \<Rightarrow> world \<Rightarrow> nat \<Rightarrow> string \<Rightarrow> string \<Rightarrow> string \<Rightarrow> js_error + jsval" where
  "sendEmail_settle cfg w k toEmail subject body =
     (let req = \<lparr> req_toEmail = toEmail, req_subject = subject, req_body = body \<rparr>
      in case sendEmail_try w k (backendApiUrl cfg) req of
           Inr result \<Rightarrow> Inr result
         | Inl error \<Rightarrow> Inr (network_failure w k req error))"

text \<open>\<open>sendEmail\<close> with its effect on the world: the fetch is issued when it is called.\<close>

definition sendEmail ::
  "config \<Rightarrow> world \<Rightarrow> string \<Rightarrow> string \<Rightarrow> string \<Rightarrow> state \<Rightarrow> state \<times> (js_error + jsval)" where
  "sendEmail cfg w toEmail subject body st =
     (st \<lparr> events := events st @
             [FetchCall (backendApiUrl cfg)
                \<lparr> req_toEmail = toEmail, req_subject = subject, req_body = body \<rparr>],
           calls := Suc (calls st) \<rparr>,
      sendEmail_settle cfg w (calls st) toEmail subject body)"

section \<open>sendBulkEmails\<close>

text \<open>\<open>Array.prototype.slice(start, end)\<close>, negative indices counting from the end.\<close>

definition slice :: "'a list \<Rightarrow> int \<Rightarrow> int \<Rightarrow> 'a list" where
  "slice xs start fin =
     (let len = int (length xs);
          k = (if start < 0 then max (len + start) 0 else min start len);
          final = (if fin < 0 then max (len + fin) 0 else min fin len)
      in take (nat (final - k)) (drop (nat k) xs))"

text \<open>\<open>batch.map(email => this.sendEmail(email, subject, body))\<close>: the calls, in order.\<close>

fun send_batch ::
  "config \<Rightarrow> world \<Rightarrow> string \<Rightarrow> string \<Rightarrow> string list \<Rightarrow> state
     \<Rightarrow> state \<times> (js_error + jsval) list" where
  "send_batch cfg w subject body [] st = (st, [])"
| "send_batch cfg w subject body (email # rest) st =
     (case sendEmail cfg w email subject body st of
        (st1, p) \<Rightarrow>
          (case send_batch cfg w subject body rest st1 of
             (st2, ps) \<Rightarrow> (st2, p # ps)))"

text \<open>\<open>Promise.all\<close>: the values in positional order, or a rejection.\<close>

fun promise_all :: "(js_error + 'a) list \<Rightarrow> js_error + 'a list" where
  "promise_all [] = Inr []"
| "promise_all (Inl e # ps) = Inl e"
| "promise_all (Inr v # ps) =
     (case promise_all ps of Inl e \<Rightarrow> Inl e | Inr vs \<Rightarrow> Inr (v # vs))"

text \<open>
  \<open>batchResults.forEach\<close>: each result goes to one of the two lists; reading
  \<open>result.success\<close> could throw, and the state then is the one reached so far.
\<close>

fun categorize :: "jsval list \<Rightarrow> state \<Rightarrow> (js_error \<times> state) + state" where
  "categorize [] st = Inr st"
| "categorize (result # rest) st =
     (case get_prop result ''success'' of
        Inl e \<Rightarrow> Inl (e, st)
      | Inr s \<Rightarrow>
          if truthy_opt s
          then categorize rest (st \<lparr> results_success := results_success st @ [result] \<rparr>)
          else categorize rest (st \<lparr> results_failure := results_failure st @ [result] \<rparr>))"

text \<open>
  One iteration of the \<open>for\<close> loop at index \<open>i\<close>. \<open>cb\<close> says whether a progress
  callback was passed; the callback is the caller's and is taken to return normally.
\<close>

definition batch_iteration ::
  "config \<Rightarrow> world \<Rightarrow> string list \<Rightarrow> string \<Rightarrow> string \<Rightarrow> bool \<Rightarrow> int \<Rightarrow> int \<Rightarrow> int \<Rightarrow> state
     \<Rightarrow> (js_error \<times> state) + state" where
  "batch_iteration cfg w emailList subject body cb batchSize delay i st =
     (let total = int (length emailList);
          batch = slice emailList i (i + batchSize)
      in case send_batch cfg w subject body batch st of
           (st1, batchPromises) \<Rightarrow>
             let st2 = st1 \<lparr> events := events st1 @ [AwaitAll (length batchPromises)] \<rparr>
             in (case promise_all batchPromises of
                   Inl e \<Rightarrow> Inl (e, st2)
                 | Inr batchResults \<Rightarrow>
                     (case categorize batchResults st2 of
                        Inl r \<Rightarrow> Inl r
                      | Inr st3 \<Rightarrow>
                          let processed = min (i + batchSize) total;
                              st4 = (if cb
                                     then st3 \<lparr> events := events st3 @
                                            [ProgressCall
                                               \<lparr> p_processed = processed,
                                                 p_total = total,
                                                 p_success = int (length (results_success st3)),
                                                 p_failure = int (length (results_failure st3)) \<rparr>] \<rparr>
                                     else st3)
                          in Inr (if i + batchSize < int (length emailList)
                                  then st4 \<lparr> events := events st4 @ [SetTimeout delay] \<rparr>
                                  else st4))))"

text \<open>
  The \<open>for\<close> loop. It need not end (a negative batch size never reaches the end of
  the list), so not returning is the value \<open>None\<close>.
\<close>

partial_function (option) bulk_loop ::
  "config \<Rightarrow> world \<Rightarrow> string list \<Rightarrow> string \<Rightarrow> string \<Rightarrow> bool \<Rightarrow> int \<Rightarrow> int \<Rightarrow> int \<Rightarrow> state
     \<Rightarrow> ((js_error \<times> state) + state) option" where
  "bulk_loop cfg w emailList subject body cb batchSize delay i st =
     (if i < int (length emailList)
      then (case batch_iteration cfg w emailList subject body cb batchSize delay i st of
              Inl r \<Rightarrow> Some (Inl r)
            | Inr st' \<Rightarrow>
                bulk_loop cfg w emailList subject body cb batchSize delay (i + batchSize) st')
      else Some (Inr st))"

declare bulk_loop.simps [code]

record run_result =
  r_success :: "jsval list"
  r_failure :: "jsval list"
  r_total :: int
  r_successCount :: int
  r_failureCount :: int

definition batchSize_of :: "config \<Rightarrow> int" where
  \<comment> \<open>\<open>Config.email.batchSize || 10\<close>\<close>
  "batchSize_of cfg = (if email_batchSize cfg \<noteq> 0 then email_batchSize cfg else 10)"

definition delay_of :: "config \<Rightarrow> int" where
  \<comment> \<open>\<open>Config.email.delayBetweenBatches || 1000\<close>\<close>
  "delay_of cfg =
     (if email_delayBetweenBatches cfg \<noteq> 0 then email_delayBetweenBatches cfg else 1000)"

text \<open>
  \<open>sendBulkEmails\<close>: \<open>None\<close> when the promise never settles, \<open>Some (Inl _)\<close> when it
  rejects, \<open>Some (Inr _)\<close> when it resolves with a result.
\<close>

definition sendBulkEmails ::
  "config \<Rightarrow> world \<Rightarrow> string list \<Rightarrow> string \<Rightarrow> string \<Rightarrow> bool \<Rightarrow> state
     \<Rightarrow> ((js_error \<times> state) + (state \<times> run_result)) option" where
  "sendBulkEmails cfg w emailList subject body cb st =
     (let st0 = st \<lparr> results_success := [], results_failure := [] \<rparr>;
          total = int (length emailList);
          batchSize = batchSize_of cfg;
          delay = delay_of cfg
      in case bulk_loop cfg w emailList subject body cb batchSize delay 0 st0 of
           None \<Rightarrow> None
         | Some (Inl r) \<Rightarrow> Some (Inl r)
         | Some (Inr st') \<Rightarrow>
             Some (Inr (st',
                        \<lparr> r_success = results_success st',
                          r_failure = results_failure st',
                          r_total = total,
                          r_successCount = int (length (results_success st')),
                          r_failureCount = int (length (results_failure st')) \<rparr>)))"

section \<open>The ledger's readers\<close>

definition getSuccessList :: "state \<Rightarrow> jsval list" where
  "getSuccessList st = results_success st"

definition getFailureList :: "state \<Rightarrow> jsval list" where
  "getFailureList st = results_failure st"

definition reset :: "state \<Rightarrow> state" where
  "reset st = st \<lparr> results_success := [], results_failure := [] \<rparr>"

record summary =
  s_total :: nat
  s_success :: nat
  s_failure :: nat
  s_successRate :: rat

text \<open>
  The arithmetic of \<open>getSummary\<close> is that of JavaScript numbers, IEEE 754 doubles:
  each operation yields the double nearest to the exact result, ties going to the even
  significand. A double is modelled by its value. \<open>bits p\<close> is the length of \<open>p\<close> in
  binary, \<open>pow2 k\<close> is \<open>2\<close> to the \<open>k\<close>, \<open>binade x\<close> is the \<open>e\<close> with
  \<open>2^e \<le> x < 2^(e+1)\<close> for a positive \<open>x\<close>; doubles of that binade are the multiples
  of \<open>2^(e-52)\<close>, and below \<open>2^(-1022)\<close> those of \<open>2^(-1074)\<close> (the subnormals). The
  values rounded here are at most 100, so none overflows to \<open>Infinity\<close>.
\<close>

function bits :: "int \<Rightarrow> int" where
  "bits p = (if p \<le> 0 then 0 else bits (p div 2) + 1)"
  by pat_completeness auto
termination
  by (relation "measure nat") auto

declare bits.simps [simp del]

definition pow2 :: "int \<Rightarrow> rat" where
  "pow2 k = (if 0 \<le> k then 2 ^ nat k else 1 / 2 ^ nat (- k))"

definition round_half_even :: "rat \<Rightarrow> int" where
  "round_half_even y =
     (let n = \<lfloor>y\<rfloor>; r = y - of_int n
      in if r < 1 / 2 then n
         else if 1 / 2 < r then n + 1
         else if even n then n else n + 1)"

definition binade :: "rat \<Rightarrow> int" where
  "binade x =
     (case quotient_of x of
        (p, q) \<Rightarrow>
          let d = bits p - bits q
          in if pow2 d \<le> x then d else d - 1)"

definition double_round :: "rat \<Rightarrow> rat" where
  "double_round x =
     (if x = 0 then 0
      else let a = \<bar>x\<bar>;
               ulp = pow2 (max (binade a) (- 1022) - 52);
               m = of_int (round_half_even (a / ulp)) * ulp
           in if x < 0 then - m else m)"

text \<open>
  \<open>a / b\<close> on the two lengths, which are below \<open>2^32\<close> and so are doubles as they
  are: \<open>None\<close> is NaN, the value of \<open>0 / 0\<close>. The divisor is a sum that has the
  dividend as a summand, so it is zero only when the dividend is. \<open>x * 100\<close> is
  rounded in its turn, NaN stays NaN, and \<open>|| 0\<close> turns NaN and 0 into 0.
\<close>

definition js_divide :: "nat \<Rightarrow> nat \<Rightarrow> rat option" where
  "js_divide a b = (if b = 0 then None else Some (double_round (of_nat a / of_nat b)))"

definition js_times :: "rat \<Rightarrow> rat \<Rightarrow> rat" where
  "js_times x y = double_round (x * y)"

definition getSummary :: "state \<Rightarrow> summary" where
  "getSummary st =
     (let s = length (results_success st); f = length (results_failure st)
      in \<lparr> s_total = s + f,
           s_success = s,
           s_failure = f,
           s_successRate =
             (case map_option (\<lambda>q. js_times q 100) (js_divide s (s + f)) of
                None \<Rightarrow> 0
              | Some r \<Rightarrow> if r \<noteq> 0 then r else 0) \<rparr>)"

section \<open>What a run amounts to\<close>

text \<open>
  The definitions of this section describe a run from the outside: the value each
  send settles with, the groups, the snapshot after each group and the effects of
  each group. The lemmas below show that the loop computes exactly these.
\<close>

definition mk_request :: "string \<Rightarrow> string \<Rightarrow> string \<Rightarrow> request" where
  "mk_request subject body toEmail = \<lparr> req_toEmail = toEmail, req_subject = subject, req_body = body \<rparr>"

text \<open>The value with which the \<open>k\<close>-th \<open>sendEmail\<close> of the session fulfils.\<close>

definition outcome :: "config \<Rightarrow> world \<Rightarrow> string \<Rightarrow> string \<Rightarrow> nat \<Rightarrow> string \<Rightarrow> jsval" where
  "outcome cfg w subject body k toEmail =
     (case sendEmail_try w k (backendApiUrl cfg) (mk_request subject body toEmail) of
        Inr result \<Rightarrow> result
      | Inl error \<Rightarrow> network_failure w k (mk_request subject body toEmail) error)"

text \<open>The test of \<open>forEach\<close>: \<open>result.success\<close> is truthy.\<close>

definition succeeded :: "jsval \<Rightarrow> bool" where
  "succeeded v = (case get_prop v ''success'' of Inl e \<Rightarrow> False | Inr s \<Rightarrow> truthy_opt s)"

text \<open>The outcomes of a list of recipients sent in order from fetch number \<open>c\<close> on.\<close>

definition outcomes :: "config \<Rightarrow> world \<Rightarrow> string \<Rightarrow> string \<Rightarrow> nat \<Rightarrow> string list \<Rightarrow> jsval list" where
  "outcomes cfg w subject body c emailList =
     map (\<lambda>(k, toEmail). outcome cfg w subject body k toEmail) (enumerate c emailList)"

text \<open>
  Group \<open>k\<close> (from 0) of a list cut into groups of \<open>b\<close> is
  \<open>take b (drop (k * b) emailList)\<close>. The snapshot reported after group \<open>k\<close>:
\<close>

definition snapshot ::
  "config \<Rightarrow> world \<Rightarrow> string list \<Rightarrow> string \<Rightarrow> string \<Rightarrow> nat \<Rightarrow> nat \<Rightarrow> nat \<Rightarrow> progress" where
  "snapshot cfg w emailList subject body c b k =
     (let done = outcomes cfg w subject body c (take (k * b + b) emailList)
      in \<lparr> p_processed = min (int (k * b + b)) (int (length emailList)),
           p_total = int (length emailList),
           p_success = int (length (filter succeeded done)),
           p_failure = int (length (filter (\<lambda>v. \<not> succeeded v) done)) \<rparr>)"

text \<open>The effects of group \<open>k\<close> up to its progress report, and with the timer after it.\<close>

definition group_work ::
  "config \<Rightarrow> world \<Rightarrow> string list \<Rightarrow> string \<Rightarrow> string \<Rightarrow> bool \<Rightarrow> nat \<Rightarrow> nat \<Rightarrow> nat
     \<Rightarrow> event list" where
  "group_work cfg w emailList subject body cb b c k =
     map (\<lambda>e. FetchCall (backendApiUrl cfg) (mk_request subject body e))
         (take b (drop (k * b) emailList))
     @ [AwaitAll (length (take b (drop (k * b) emailList)))]
     @ (if cb then [ProgressCall (snapshot cfg w emailList subject body c b k)] else [])"

definition group_events ::
  "config \<Rightarrow> world \<Rightarrow> string list \<Rightarrow> string \<Rightarrow> string \<Rightarrow> bool \<Rightarrow> nat \<Rightarrow> int \<Rightarrow> nat \<Rightarrow> nat
     \<Rightarrow> event list" where
  "group_events cfg w emailList subject body cb b delay c k =
     group_work cfg w emailList subject body cb b c k
     @ (if k * b + b < length emailList then [SetTimeout delay] else [])"

text \<open>The state after the first \<open>k\<close> groups, from a state \<open>st\<close> whose ledger is empty.\<close>

definition state_after ::
  "config \<Rightarrow> world \<Rightarrow> string list \<Rightarrow> string \<Rightarrow> string \<Rightarrow> bool \<Rightarrow> nat \<Rightarrow> int \<Rightarrow> state \<Rightarrow> nat
     \<Rightarrow> state" where
  "state_after cfg w emailList subject body cb b delay st k =
     (let done = outcomes cfg w subject body (calls st) (take (k * b) emailList)
      in st \<lparr> results_success := filter succeeded done,
              results_failure := filter (\<lambda>v. \<not> succeeded v) done,
              events := events st @
                concat (map (group_events cfg w emailList subject body cb b delay (calls st)) [0..<k]),
              calls := calls st + length (take (k * b) emailList) \<rparr>)"

definition group_count :: "nat \<Rightarrow> nat \<Rightarrow> nat" where
  \<comment> \<open>\<open>ceil(n / b)\<close>\<close>
  "group_count n b = (n + b - 1) div b"

text \<open>The state in which a run with a positive batch size ends.\<close>

definition final_state ::
  "config \<Rightarrow> world \<Rightarrow> string list \<Rightarrow> string \<Rightarrow> string \<Rightarrow> bool \<Rightarrow> state \<Rightarrow> state" where
  "final_state cfg w emailList subject body cb st =
     state_after cfg w emailList subject body cb (nat (batchSize_of cfg)) (delay_of cfg)
       (reset st) (group_count (length emailList) (nat (batchSize_of cfg)))"

text \<open>The state a settled run leaves, when it resolved.\<close>

definition settled_state ::
  "((js_error \<times> state) + (state \<times> run_result)) option \<Rightarrow> state option" where
  "settled_state r = (case r of Some (Inr (st', res)) \<Rightarrow> Some st' | _ \<Rightarrow> None)"

text \<open>
  Readers of the effects of a run: the snapshots handed to the progress callback, the
  delays of the timers set, the payloads of the fetches issued, and the groups: the
  fetches issued before each \<open>await Promise.all\<close>.
\<close>

fun progress_calls :: "event list \<Rightarrow> progress list" where
  "progress_calls [] = []"
| "progress_calls (ProgressCall p # evs) = p # progress_calls evs"
| "progress_calls (ev # evs) = progress_calls evs"

fun timers :: "event list \<Rightarrow> int list" where
  "timers [] = []"
| "timers (SetTimeout d # evs) = d # timers evs"
| "timers (ev # evs) = timers evs"

fun fetched :: "event list \<Rightarrow> request list" where
  "fetched [] = []"
| "fetched (FetchCall url req # evs) = req # fetched evs"
| "fetched (ev # evs) = fetched evs"

fun sent_groups :: "request list \<Rightarrow> event list \<Rightarrow> request list list" where
  "sent_groups acc [] = (if acc = [] then [] else [acc])"
| "sent_groups acc (FetchCall url req # evs) = sent_groups (acc @ [req]) evs"
| "sent_groups acc (AwaitAll n # evs) = acc # sent_groups [] evs"
| "sent_groups acc (ev # evs) = sent_groups acc evs"

section \<open>Worlds to run the service on\<close>

text \<open>
  A world whose first fetch rejects and whose later ones are answered with a success, a
  world in which every fetch is answered with a success, a world in which every fetch
  rejects, and a fresh service.
\<close>

definition example_world :: world where
  "example_world =
     \<lparr> fetch = (\<lambda>k url req.
         if k = 0 then FetchRejects (Error ''Failed to fetch'')
         else JsonBody (JObj [(''success'', JBool True), (''email'', JStr (req_toEmail req)),
                              (''sentAt'', JStr ''2024-01-01T00:00:00.000Z''),
                              (''messageId'', JStr ''m1'')])),
       now = (\<lambda>k. 1700000000000) \<rparr>"


definition failing_world :: world where
  "failing_world =
     \<lparr> fetch = (\<lambda>k url req. FetchRejects (Error ''Failed to fetch'')),
       now = (\<lambda>k. 1700000000000) \<rparr>"

definition idle_state :: state where
  "idle_state = \<lparr> results_success = [], results_failure = [], events = [], calls = 0 \<rparr>"

section \<open>The loop computes the expected run\<close>

subsection \<open>One send, one group\<close>

lemma sendEmail_settle_outcome:
  "sendEmail_settle cfg w k toEmail subject body = Inr (outcome cfg w subject body k toEmail)"
  by (simp add: sendEmail_settle_def outcome_def mk_request_def split: sum.splits)

lemma set_prop_not_null: "r \<noteq> JNull \<Longrightarrow> set_prop r name v \<noteq> JNull"
  by (cases r) simp_all

lemma get_prop_Inr_not_null: "get_prop r name = Inr p \<Longrightarrow> r \<noteq> JNull"
  by (cases r) simp_all

lemma get_prop_not_null: "r \<noteq> JNull \<Longrightarrow> \<exists>p. get_prop r name = Inr p"
  by (cases r) simp_all

lemma sendEmail_try_not_null: "sendEmail_try w k url req = Inr r \<Longrightarrow> r \<noteq> JNull"
  by (auto simp: sendEmail_try_def Let_def set_prop_not_null 
      split: response.splits sum.splits option.splits if_splits dest: get_prop_Inr_not_null)

lemma network_failure_not_null: "network_failure w k req e \<noteq> JNull"
  by (cases e) (simp add: network_failure_def)

lemma outcome_not_null: "outcome cfg w subject body k toEmail \<noteq> JNull"
  by (auto simp: outcome_def network_failure_not_null split: sum.splits dest: sendEmail_try_not_null)

lemma outcomes_not_null: "JNull \<notin> set (outcomes cfg w subject body c es)"
  by (induction es arbitrary: c) (simp_all add: outcomes_def outcome_not_null [THEN not_sym])

lemma length_outcomes [simp]: "length (outcomes cfg w subject body c es) = length es"
  by (simp add: outcomes_def)

lemma outcomes_Nil [simp]: "outcomes cfg w subject body c [] = []"
  by (simp add: outcomes_def)

lemma outcomes_Cons:
  "outcomes cfg w subject body c (e # es) = outcome cfg w subject body c e # outcomes cfg w subject body (Suc c) es"
  by (simp add: outcomes_def)

lemma send_batch_closed:
  "send_batch cfg w subject body es st =
     (st \<lparr> events := events st @ map (\<lambda>e. FetchCall (backendApiUrl cfg) (mk_request subject body e)) es,
           calls := calls st + length es \<rparr>,
      map Inr (outcomes cfg w subject body (calls st) es))"
proof (induction es arbitrary: st)
  case Nil
  show ?case by simp
next
  case (Cons e es)
  show ?case
    by (simp add: Cons.IH sendEmail_def sendEmail_settle_outcome outcomes_Cons mk_request_def)
qed

lemma promise_all_Inr: "promise_all (map Inr vs) = Inr vs"
  by (induction vs) simp_all

lemma categorize_closed:
  "JNull \<notin> set vs \<Longrightarrow>
   categorize vs st =
     Inr (st \<lparr> results_success := results_success st @ filter succeeded vs,
               results_failure := results_failure st @ filter (\<lambda>v. \<not> succeeded v) vs \<rparr>)"
proof (induction vs arbitrary: st)
  case Nil
  show ?case by simp
next
  case (Cons v vs)
  from Cons.prems have "v \<noteq> JNull" and rest: "JNull \<notin> set vs" by auto
  then obtain p where p: "get_prop v ''success'' = Inr p"
    using get_prop_not_null by blast
  show ?case
    by (simp add: p succeeded_def Cons.IH [OF rest])
qed

lemma slice_take_drop:
  "0 \<le> b \<Longrightarrow> slice xs (int a) (int a + b) = take (nat b) (drop a xs)"
proof (cases "a \<le> length xs")
  case True
  assume "0 \<le> b"
  then have "nat (min (int a + b) (int (length xs)) - int a) = min (nat b) (length xs - a)"
    using True by (simp add: min_def) linarith
  moreover have "take (min (nat b) (length (drop a xs))) (drop a xs) = take (nat b) (drop a xs)"
    by (simp add: min_def)
  ultimately show ?thesis
    using True \<open>0 \<le> b\<close> by (simp add: slice_def Let_def min_absorb1)
next
  case False
  then show ?thesis by (simp add: slice_def Let_def)
qed

lemma outcomes_append:
  "outcomes cfg w subject body c (xs @ ys) =
     outcomes cfg w subject body c xs @ outcomes cfg w subject body (c + length xs) ys"
  by (simp add: outcomes_def enumerate_append_eq)

subsection \<open>The loop, group by group\<close>

lemma state_after_fields:
  "results_success (state_after cfg w emailList subject body cb b delay st k) =
     filter succeeded (outcomes cfg w subject body (calls st) (take (k * b) emailList))"
  "results_failure (state_after cfg w emailList subject body cb b delay st k) =
     filter (\<lambda>v. \<not> succeeded v) (outcomes cfg w subject body (calls st) (take (k * b) emailList))"
  "events (state_after cfg w emailList subject body cb b delay st k) =
     events st @ concat (map (group_events cfg w emailList subject body cb b delay (calls st)) [0..<k])"
  "calls (state_after cfg w emailList subject body cb b delay st k) =
     calls st + length (take (k * b) emailList)"
  "state.more (state_after cfg w emailList subject body cb b delay st k) = state.more st"
  by (simp_all add: state_after_def Let_def del: length_take)

lemma batch_iteration_step:
  assumes "k * b < length emailList"
  shows "batch_iteration cfg w emailList subject body cb (int b) delay (int (k * b))
           (state_after cfg w emailList subject body cb b delay st k)
         = Inr (state_after cfg w emailList subject body cb b delay st (Suc k))"
proof -
  let ?pre = "take (k * b) emailList"
  let ?grp = "take b (drop (k * b) emailList)"
  have len_pre: "length ?pre = k * b" using assms by simp
  have suc_eq: "Suc k * b = k * b + b" by simp
  have split: "take (k * b + b) emailList = ?pre @ ?grp"
    by (simp add: take_add)
  have outs: "outcomes cfg w subject body (calls st) (take (k * b + b) emailList)
      = outcomes cfg w subject body (calls st) ?pre
        @ outcomes cfg w subject body (calls st + k * b) ?grp"
    by (simp only: split outcomes_append len_pre)
  have sl: "slice emailList (int (k * b)) (int (k * b) + int b) = ?grp"
    using slice_take_drop [of "int b" emailList "k * b"] by simp
  have lt: "(int (k * b) + int b < int (length emailList)) = (k * b + b < length emailList)"
    by linarith
  have mn: "min (int (k * b) + int b) (int (length emailList)) = min (int (k * b + b)) (int (length emailList))"
    by simp
  have len_suc: "length (take (k * b + b) emailList) = k * b + length ?grp"
    using assms unfolding length_take length_drop by arith
  show ?thesis
    unfolding batch_iteration_def Let_def sl lt mn
    apply (simp add: send_batch_closed promise_all_Inr categorize_closed outcomes_not_null
        del: length_take of_nat_add of_nat_mult take_all take_all_iff)
    apply (intro conjI impI state.equality)
    apply (simp_all add: state_after_fields suc_eq len_pre len_suc outs group_events_def
        group_work_def snapshot_def Let_def
        del: length_take of_nat_add of_nat_mult mult_Suc take_all take_all_iff)
    done
qed

lemma less_group_count: "0 < b \<Longrightarrow> k < group_count n b \<longleftrightarrow> k * b < n"
proof -
  assume b: "0 < b"
  have "group_count n b \<le> k \<longleftrightarrow> n + b - 1 < (k + 1) * b"
    unfolding group_count_def using b
    by (metis Suc_eq_plus1 div_less_iff_less_mult less_Suc_eq_le)
  also have "\<dots> \<longleftrightarrow> n \<le> k * b"
    using b by (cases b) auto
  finally show ?thesis by auto
qed

lemma bulk_loop_from:
  assumes "0 < b" and "k \<le> group_count (length emailList) b"
  shows "bulk_loop cfg w emailList subject body cb (int b) delay (int (k * b))
           (state_after cfg w emailList subject body cb b delay st k)
         = Some (Inr (state_after cfg w emailList subject body cb b delay st
                        (group_count (length emailList) b)))"
  using assms(2)
proof (induction "group_count (length emailList) b - k" arbitrary: k)
  case 0
  then have "k = group_count (length emailList) b" by simp
  then have "\<not> k * b < length emailList"
    using less_group_count [OF assms(1), of k "length emailList"] by simp
  then have "\<not> int (k * b) < int (length emailList)" by linarith
  then show ?case
    using \<open>k = group_count (length emailList) b\<close>
    by (subst bulk_loop.simps) (simp del: of_nat_mult)
next
  case (Suc d)
  then have lt: "k < group_count (length emailList) b" by simp
  then have kb: "k * b < length emailList"
    using less_group_count [OF assms(1)] by simp
  then have cond: "int (k * b) < int (length emailList)" by linarith
  have next_i: "int (k * b) + int b = int (Suc k * b)" by simp
  have "bulk_loop cfg w emailList subject body cb (int b) delay (int (Suc k * b))
           (state_after cfg w emailList subject body cb b delay st (Suc k))
         = Some (Inr (state_after cfg w emailList subject body cb b delay st
                        (group_count (length emailList) b)))"
    using Suc.hyps(1) [of "Suc k"] Suc.hyps(2) lt by simp
  then show ?case
    by (subst bulk_loop.simps)
       (simp only: cond if_True batch_iteration_step [OF kb] sum.case next_i)
qed

lemma state_after_0:
  "results_success st = [] \<Longrightarrow> results_failure st = [] \<Longrightarrow>
   state_after cfg w emailList subject body cb b delay st 0 = st"
  by (simp add: state_after_def)

lemma take_group_count:
  "0 < b \<Longrightarrow> take (group_count (length xs) b * b) xs = xs"
  using less_group_count [of b "group_count (length xs) b" "length xs"] by simp

lemma sendBulkEmails_closed:
  assumes "1 \<le> batchSize_of cfg"
  shows "sendBulkEmails cfg w emailList subject body cb st =
     Some (Inr (final_state cfg w emailList subject body cb st,
       \<lparr> r_success = results_success (final_state cfg w emailList subject body cb st),
         r_failure = results_failure (final_state cfg w emailList subject body cb st),
         r_total = int (length emailList),
         r_successCount = int (length (results_success (final_state cfg w emailList subject body cb st))),
         r_failureCount = int (length (results_failure (final_state cfg w emailList subject body cb st))) \<rparr>))"
proof -
  let ?b = "nat (batchSize_of cfg)"
  have b: "0 < ?b" and ib: "int ?b = batchSize_of cfg" using assms by simp_all
  have r0: "state_after cfg w emailList subject body cb ?b (delay_of cfg) (reset st) 0 = reset st"
    by (rule state_after_0) (simp_all add: reset_def)
  have "bulk_loop cfg w emailList subject body cb (int ?b) (delay_of cfg) (int (0 * ?b))
           (state_after cfg w emailList subject body cb ?b (delay_of cfg) (reset st) 0)
         = Some (Inr (final_state cfg w emailList subject body cb st))"
    unfolding final_state_def by (rule bulk_loop_from [OF b]) simp
  then have "bulk_loop cfg w emailList subject body cb (batchSize_of cfg) (delay_of cfg) 0 (reset st)
         = Some (Inr (final_state cfg w emailList subject body cb st))"
    using assms by (simp add: r0)
  then show ?thesis
    by (simp add: sendBulkEmails_def Let_def reset_def)
qed

lemma final_state_fields:
  assumes "1 \<le> batchSize_of cfg"
  shows "results_success (final_state cfg w emailList subject body cb st) =
           filter succeeded (outcomes cfg w subject body (calls st) emailList)"
    and "results_failure (final_state cfg w emailList subject body cb st) =
           filter (\<lambda>v. \<not> succeeded v) (outcomes cfg w subject body (calls st) emailList)"
    and "events (final_state cfg w emailList subject body cb st) =
           events st @ concat (map (group_events cfg w emailList subject body cb
               (nat (batchSize_of cfg)) (delay_of cfg) (calls st))
             [0..<group_count (length emailList) (nat (batchSize_of cfg))])"
    and "calls (final_state cfg w emailList subject body cb st) = calls st + length emailList"
  using assms
  by (simp_all add: final_state_def state_after_fields take_group_count reset_def)

lemma batchSize_of_pos: "0 \<le> email_batchSize cfg \<Longrightarrow> 1 \<le> batchSize_of cfg"
  by (simp add: batchSize_of_def)

subsection \<open>Outcomes of failed sends, the summary, the number of groups\<close>

lemma nth_outcomes:
  "k < length es \<Longrightarrow>
   outcomes cfg w subject body c es ! k = outcome cfg w subject body (c + k) (es ! k)"
  by (simp add: outcomes_def nth_enumerate_eq)

lemma network_failure_errorCode:
  "get_prop (network_failure w k req e) ''errorCode'' = Inr (Some (JStr ''NETWORK_ERROR''))"
  by (cases e) (simp add: network_failure_def)

lemma network_failure_not_succeeded: "\<not> succeeded (network_failure w k req e)"
  by (cases e) (simp add: network_failure_def succeeded_def)

lemma outcome_of_throw:
  "sendEmail_try w k (backendApiUrl cfg) (mk_request subject body toEmail) = Inl e \<Longrightarrow>
   outcome cfg w subject body k toEmail = network_failure w k (mk_request subject body toEmail) e"
  by (simp add: outcome_def)

lemma sendEmail_try_rejects:
  "fetch w k url req = FetchRejects e \<or> fetch w k url req = JsonRejects e \<Longrightarrow>
   sendEmail_try w k url req = Inl e"
  by (auto simp: sendEmail_try_def)

subsection \<open>Rounding to a double\<close>

text \<open>
  \<open>binade x\<close> is the binade of a positive \<open>x\<close>, and \<open>double_round x\<close> is a multiple
  of the spacing of the doubles there, at most half a spacing away from \<open>x\<close>.
\<close>

lemma pow2_powi: "pow2 k = 2 powi k"
  by (simp add: pow2_def power_int_def inverse_eq_divide power_one_over)

lemma pow2_pos: "0 < pow2 k"
  by (simp add: pow2_powi)

lemma bits_pos: "0 < p \<Longrightarrow> 0 < bits p"
proof (induction p rule: bits.induct)
  case (1 p)
  show ?case
  proof (cases "p div 2 \<le> 0")
    case True
    then have "bits (p div 2) = 0" by (simp add: bits.simps)
    with 1(2) show ?thesis by (simp add: bits.simps [of p])
  next
    case False
    with 1 have "0 < bits (p div 2)" by simp
    with 1(2) show ?thesis by (simp add: bits.simps [of p])
  qed
qed

lemma bits_bounds: "0 < p \<Longrightarrow> 2 ^ nat (bits p - 1) \<le> p \<and> p < 2 ^ nat (bits p)"
proof (induction p rule: bits.induct)
  case (1 p)
  show ?case
  proof (cases "p div 2 \<le> 0")
    case True
    with 1(2) have "p = 1" by linarith
    then show ?thesis by (simp add: bits.simps [of 1] bits.simps [of 0])
  next
    case False
    then have h: "0 < p div 2" by simp
    let ?k = "bits (p div 2)"
    from 1(1) 1(2) h have IH: "2 ^ nat (?k - 1) \<le> p div 2" "p div 2 < 2 ^ nat ?k" by simp_all
    have kpos: "0 < ?k" using h by (rule bits_pos)
    have bp: "bits p = ?k + 1" using 1(2) by (simp add: bits.simps [of p])
    have e1: "nat (bits p - 1) = Suc (nat (?k - 1))" using kpos bp by simp
    have e2: "nat (bits p) = Suc (nat ?k)" using kpos bp by simp
    have "2 * 2 ^ nat (?k - 1) \<le> p" using IH(1) by linarith
    moreover have "p < 2 * 2 ^ nat ?k" using IH(2) by linarith
    ultimately show ?thesis by (simp add: e1 e2)
  qed
qed

lemma binade_bounds:
  assumes "0 < x"
  shows "pow2 (binade x) \<le> x" and "x < pow2 (binade x + 1)"
proof -
  obtain p q where pq: "quotient_of x = (p, q)" by (cases "quotient_of x")
  then have q: "0 < q" by (rule quotient_of_denom_pos)
  have x: "x = of_int p / of_int q" using pq by (rule quotient_of_div)
  have p: "0 < p" using assms x q by (simp add: zero_less_divide_iff)
  let ?d = "bits p - bits q"
  note bp = bits_bounds [OF p] and bq = bits_bounds [OF q]
  have bpp: "0 < bits p" and bqp: "0 < bits q" using p q by (simp_all add: bits_pos)
  have lo: "pow2 (?d - 1) \<le> x"
  proof -
    let ?a = "nat (bits p - 1)" and ?b = "nat (bits q)"
    have eq: "?d - 1 = int ?a - int ?b" using bpp bqp by simp
    have "pow2 (?d - 1) = 2 powi (int ?a - int ?b)" by (simp only: pow2_powi eq)
    also have "\<dots> = 2 powi int ?a / 2 powi int ?b" by (rule power_int_diff) simp
    also have "\<dots> = 2 ^ ?a / 2 ^ ?b" by (simp only: power_int_of_nat)
    also have "\<dots> \<le> of_int p / of_int q"
    proof (rule frac_le)
      have "(of_int (2 ^ ?a) :: rat) \<le> of_int p" using bp by (simp only: of_int_le_iff)
      then show "(2 :: rat) ^ ?a \<le> of_int p" by simp
      have "(of_int q :: rat) \<le> of_int (2 ^ ?b)" using bq by (simp only: of_int_le_iff) simp
      then show "(of_int q :: rat) \<le> 2 ^ ?b" by simp
    qed (use p q in simp_all)
    finally show ?thesis by (simp only: x)
  qed
  have hi: "x < pow2 (?d + 1)"
  proof -
    let ?a = "nat (bits p)" and ?b = "nat (bits q - 1)"
    have eq: "?d + 1 = int ?a - int ?b" using bpp bqp by simp
    have "pow2 (?d + 1) = 2 powi (int ?a - int ?b)" by (simp only: pow2_powi eq)
    also have "\<dots> = 2 powi int ?a / 2 powi int ?b" by (rule power_int_diff) simp
    also have "\<dots> = 2 ^ ?a / 2 ^ ?b" by (simp only: power_int_of_nat)
    finally have e: "pow2 (?d + 1) = 2 ^ ?a / 2 ^ ?b" .
    have "of_int p / of_int q < (2 :: rat) ^ ?a / 2 ^ ?b"
    proof (rule frac_less)
      have "(of_int p :: rat) < of_int (2 ^ ?a)" using bp by (simp only: of_int_less_iff)
      then show "(of_int p :: rat) < 2 ^ ?a" by simp
      have "(of_int (2 ^ ?b) :: rat) \<le> of_int q" using bq by (simp only: of_int_le_iff)
      then show "(2 :: rat) ^ ?b \<le> of_int q" by simp
    qed (use p q in simp_all)
    then show ?thesis by (simp only: x e)
  qed
  show "pow2 (binade x) \<le> x" using lo by (simp add: binade_def pq Let_def)
  show "x < pow2 (binade x + 1)" using hi
    by (auto simp add: binade_def pq Let_def not_le)
qed


lemma round_half_even_error: "\<bar>of_int (round_half_even y) - y\<bar> \<le> 1 / 2"
proof -
  have "of_int \<lfloor>y\<rfloor> \<le> y" and "y < of_int \<lfloor>y\<rfloor> + 1" by linarith+
  then show ?thesis
    by (auto simp: round_half_even_def Let_def)
qed

lemma round_half_even_of_int: "round_half_even (of_int m) = m"
  by (simp add: round_half_even_def)

lemma double_round_grid:
  "x \<noteq> 0 \<Longrightarrow>
   \<exists>m. double_round x = of_int m * pow2 (max (binade \<bar>x\<bar>) (- 1022) - 52)"
proof -
  assume "x \<noteq> 0"
  let ?u = "pow2 (max (binade \<bar>x\<bar>) (- 1022) - 52)"
  let ?m = "round_half_even (\<bar>x\<bar> / ?u)"
  show ?thesis
  proof (cases "x < 0")
    case True
    then have "double_round x = of_int (- ?m) * ?u"
      using \<open>x \<noteq> 0\<close> by (simp add: double_round_def Let_def)
    then show ?thesis by blast
  next
    case False
    then have "double_round x = of_int ?m * ?u"
      using \<open>x \<noteq> 0\<close> by (simp add: double_round_def Let_def)
    then show ?thesis by blast
  qed
qed

lemma scaled_abs:
  fixes u :: rat
  assumes "0 < u"
  shows "\<bar>m * u - a\<bar> = \<bar>m - a / u\<bar> * u"
proof -
  have "m * u - a = (m - a / u) * u" using assms by (simp add: left_diff_distrib)
  then have "\<bar>m * u - a\<bar> = \<bar>m - a / u\<bar> * \<bar>u\<bar>" by (simp only: abs_mult)
  then show ?thesis using assms by simp
qed

lemma double_round_nearest:
  "\<bar>double_round x - x\<bar> \<le> pow2 (max (binade \<bar>x\<bar>) (- 1022) - 52) / 2"
proof (cases "x = 0")
  case True
  then show ?thesis using pow2_pos [of "max (binade \<bar>x\<bar>) (- 1022) - 52"]
    by (simp add: double_round_def)
next
  case False
  let ?u = "pow2 (max (binade \<bar>x\<bar>) (- 1022) - 52)"
  let ?m = "round_half_even (\<bar>x\<bar> / ?u)"
  have u: "0 < ?u" by (rule pow2_pos)
  have "\<bar>of_int ?m * ?u - \<bar>x\<bar>\<bar> = \<bar>of_int ?m - \<bar>x\<bar> / ?u\<bar> * ?u"
    using u by (rule scaled_abs)
  also have "\<dots> \<le> 1 / 2 * ?u"
    using round_half_even_error [of "\<bar>x\<bar> / ?u"] u by (intro mult_right_mono) simp_all
  finally have main: "\<bar>of_int ?m * ?u - \<bar>x\<bar>\<bar> \<le> ?u / 2" by simp
  show ?thesis
  proof (cases "x < 0")
    case True
    then have "double_round x - x = - (of_int ?m * ?u - \<bar>x\<bar>)"
      by (simp add: double_round_def Let_def)
    then show ?thesis using main by (simp only: abs_minus_cancel)
  next
    case neg: False
    then have "double_round x - x = of_int ?m * ?u - \<bar>x\<bar>"
      using False by (simp add: double_round_def Let_def)
    then show ?thesis using main by simp
  qed
qed




text \<open>
  The rounding shows in the summary: 7 successes of 25 give
  \<open>28.000000000000004\<close>, and 1 of 3 gives \<open>33.33333333333333\<close>.
\<close>

lemma rate_7_of_25: "map_option (\<lambda>q. js_times q 100) (js_divide 7 25) = Some (28 + 1 / 2 ^ 48)"
  by code_simp

lemma rate_1_of_3:
  "map_option (\<lambda>q. js_times q 100) (js_divide 1 3)
     = Some (2345624805922133 / 70368744177664)"
  by code_simp

lemma group_count_ceiling:
  assumes b: "0 < b"
  shows "int (group_count n b) = \<lceil>real n / real b\<rceil>"
proof -
  let ?m = "group_count n b"
  have up: "n \<le> ?m * b" using less_group_count [OF b, of ?m n] by simp
  have lo: "?m = 0 \<or> (?m - 1) * b < n" using less_group_count [OF b, of "?m - 1" n] by auto
  have 1: "real n / real b \<le> real ?m"
  proof -
    have "real n \<le> real (?m * b)" using up by (rule of_nat_mono)
    then show ?thesis using b by (simp add: pos_divide_le_eq)
  qed
  have 2: "real ?m - 1 < real n / real b"
  proof (cases "?m = 0")
    case True
    have "(- 1 :: real) < 0" by simp
    also have "0 \<le> real n / real b" by simp
    finally show ?thesis using True by simp
  next
    case False
    then have "(?m - 1) * b < n" using lo by simp
    then have "real ((?m - 1) * b) < real n" by (simp only: of_nat_less_iff)
    moreover have "real (?m - 1) = real ?m - 1" using False by (simp add: of_nat_diff)
    ultimately show ?thesis using b by (simp add: pos_less_divide_eq)
  qed
  have "\<lceil>real n / real b\<rceil> = int ?m"
    by (rule ceiling_unique) (use 1 2 in simp_all)
  then show ?thesis by simp
qed

subsection \<open>Reading the effects of a run\<close>

lemma progress_calls_append:
  "progress_calls (xs @ ys) = progress_calls xs @ progress_calls ys"
  by (induction xs rule: progress_calls.induct) simp_all

lemma timers_append: "timers (xs @ ys) = timers xs @ timers ys"
  by (induction xs rule: timers.induct) simp_all

lemma fetched_append: "fetched (xs @ ys) = fetched xs @ fetched ys"
  by (induction xs rule: fetched.induct) simp_all

lemma observers_of_sends:
  "progress_calls (map (\<lambda>e. FetchCall url (f e)) es) = []"
  "timers (map (\<lambda>e. FetchCall url (f e)) es) = []"
  "fetched (map (\<lambda>e. FetchCall url (f e)) es) = map f es"
  by (induction es) simp_all

lemma sent_groups_sends:
  "sent_groups acc (map (\<lambda>e. FetchCall url (f e)) es @ evs) = sent_groups (acc @ map f es) evs"
  by (induction es arbitrary: acc) simp_all

lemma progress_calls_concat:
  "progress_calls (concat (map G ks)) = concat (map (\<lambda>k. progress_calls (G k)) ks)"
  by (induction ks) (simp_all add: progress_calls_append)

lemma timers_concat:
  "timers (concat (map G ks)) = concat (map (\<lambda>k. timers (G k)) ks)"
  by (induction ks) (simp_all add: timers_append)

lemma fetched_concat:
  "fetched (concat (map G ks)) = concat (map (\<lambda>k. fetched (G k)) ks)"
  by (induction ks) (simp_all add: fetched_append)

lemma concat_singletons: "concat (map (\<lambda>k. [f k]) ks) = map f ks"
  by (induction ks) simp_all

lemma progress_calls_group_events:
  "progress_calls (group_events cfg w emailList subject body cb b delay c k) =
     (if cb then [snapshot cfg w emailList subject body c b k] else [])"
  by (simp add: group_events_def group_work_def progress_calls_append observers_of_sends)

lemma timers_group_work: "timers (group_work cfg w emailList subject body cb b c k) = []"
  by (simp add: group_work_def timers_append observers_of_sends)

lemma fetched_group_events:
  "fetched (group_events cfg w emailList subject body cb b delay c k) =
     map (mk_request subject body) (take b (drop (k * b) emailList))"
  by (simp add: group_events_def group_work_def fetched_append observers_of_sends)

lemma sent_groups_group_events:
  "sent_groups [] (group_events cfg w emailList subject body cb b delay c k @ evs) =
     map (mk_request subject body) (take b (drop (k * b) emailList)) # sent_groups [] evs"
  by (simp add: group_events_def group_work_def sent_groups_sends)

lemma sent_groups_concat:
  "sent_groups [] (concat (map (group_events cfg w emailList subject body cb b delay c) ks)) =
     map (\<lambda>k. map (mk_request subject body) (take b (drop (k * b) emailList))) ks"
  by (induction ks) (simp_all add: sent_groups_group_events)

lemma concat_groups: "concat (map (\<lambda>k. take b (drop (k * b) xs)) [0..<m]) = take (m * b) xs"
proof (induction m)
  case 0
  show ?case by simp
next
  case (Suc m)
  have "take (m * b + b) xs = take (m * b) xs @ take b (drop (m * b) xs)"
    by (simp add: take_add)
  then show ?case using Suc by (simp add: add.commute)
qed

lemma snapshot_fields:
  "p_processed (snapshot cfg w emailList subject body c b k)
     = min (int (k * b + b)) (int (length emailList))"
  "p_total (snapshot cfg w emailList subject body c b k) = int (length emailList)"
  "p_processed (snapshot cfg w emailList subject body c b k)
     = p_success (snapshot cfg w emailList subject body c b k)
       + p_failure (snapshot cfg w emailList subject body c b k)"
proof -
  let ?done = "outcomes cfg w subject body c (take (k * b + b) emailList)"
  have "length (filter succeeded ?done) + length (filter (\<lambda>v. \<not> succeeded v) ?done)
        = length ?done"
    by (rule sum_length_filter_compl)
  then have "int (length (filter succeeded ?done)) + int (length (filter (\<lambda>v. \<not> succeeded v) ?done))
        = min (int (k * b + b)) (int (length emailList))"
    by (simp flip: of_nat_add add: min_def)
  then show "p_processed (snapshot cfg w emailList subject body c b k)
     = p_success (snapshot cfg w emailList subject body c b k)
       + p_failure (snapshot cfg w emailList subject body c b k)"
    by (simp add: snapshot_def Let_def)
qed (simp_all add: snapshot_def Let_def)

lemma sorted_map_upt:
  assumes "\<And>i j. i \<le> j \<Longrightarrow> f i \<le> (f j :: int)"
  shows "sorted (map f [0..<m])"
proof -
  have "sorted_wrt (\<lambda>x y. f x \<le> f y) [0..<m]"
    by (rule sorted_wrt_mono_rel [of _ "(\<le>)"]) (simp_all add: assms)
  then show ?thesis by (simp add: sorted_map)
qed

lemma group_size:
  assumes "0 < b" and "k < group_count (length xs) b"
  shows "0 < length (take b (drop (k * b) xs))" and "length (take b (drop (k * b) xs)) \<le> b"
proof -
  have "k * b < length xs" using less_group_count [OF assms(1)] assms(2) by simp
  then show "0 < length (take b (drop (k * b) xs))" using assms(1) by simp
  show "length (take b (drop (k * b) xs)) \<le> b" by simp
qed

lemma full_group_size:
  assumes "0 < b" and "Suc k < group_count (length xs) b"
  shows "length (take b (drop (k * b) xs)) = b"
proof -
  have "Suc k * b < length xs" using less_group_count [OF assms(1)] assms(2) by simp
  then show ?thesis by simp
qed

lemma more_groups_remain:
  "0 < b \<Longrightarrow> (k * b + b < n) = (Suc k < group_count n b)"
  using less_group_count [of b "Suc k" n] by (simp add: add.commute)

lemma butlast_upt0: "butlast [0..<m] = [0..<m - 1]"
  by (cases m) simp_all

lemma concat_all_but_last:
  "concat (map (\<lambda>k. if Suc k < m then [d] else []) [0..<m]) = replicate (m - 1) d"
proof (cases m)
  case 0
  then show ?thesis by simp
next
  case (Suc j)
  have "map (\<lambda>k. if Suc k < Suc j then [d] else []) [0..<j] = map (\<lambda>k. [d]) [0..<j]"
    by (rule map_cong) simp_all
  then have "concat (map (\<lambda>k. if Suc k < Suc j then [d] else []) [0..<j]) = replicate j d"
    by (simp add: concat_singletons map_replicate_const)
  then show ?thesis using Suc by simp
qed

subsection \<open>Runs that do not resolve\<close>

text \<open>
  An iteration never throws; with a batch size that is not positive the index never
  passes the end of a non-empty list, and the loop never returns.
\<close>

lemma batch_iteration_Inr:
  "\<exists>st'. batch_iteration cfg w emailList subject body cb batchSize delay i st = Inr st'"
  unfolding batch_iteration_def Let_def
  by (simp add: send_batch_closed promise_all_Inr categorize_closed outcomes_not_null)

lemma bulk_loop_diverges:
  assumes "batchSize \<le> 0" and "i < int (length emailList)"
  shows "bulk_loop cfg w emailList subject body cb batchSize delay i st = None"
proof (cases "bulk_loop cfg w emailList subject body cb batchSize delay i st")
  case None
  then show ?thesis .
next
  case (Some y)
  have "batchSize \<le> 0 \<longrightarrow> i < int (length emailList) \<longrightarrow> False"
  proof (rule bulk_loop.raw_induct
      [where P = "\<lambda>cfg w emailList subject body cb batchSize delay i st y.
                    batchSize \<le> 0 \<longrightarrow> i < int (length emailList) \<longrightarrow> False",
        OF _ Some], goal_cases)
    case (1 loop cfg w emailList subject body cb batchSize delay i st y)
    show ?case
    proof (intro impI)
      assume neg: "batchSize \<le> 0" and lt: "i < int (length emailList)"
      obtain st1 where "batch_iteration cfg w emailList subject body cb batchSize delay i st = Inr st1"
        using batch_iteration_Inr by blast
      with 1(2) lt have "loop cfg w emailList subject body cb batchSize delay (i + batchSize) st1 = Some y"
        by simp
      then have "batchSize \<le> 0 \<longrightarrow> i + batchSize < int (length emailList) \<longrightarrow> False"
        by (rule 1(1))
      with neg lt show False by simp
    qed
  qed
  with assms show ?thesis by simp
qed

lemma sendBulkEmails_negative_batch:
  assumes "email_batchSize cfg < 0" and "emailList \<noteq> []"
  shows "sendBulkEmails cfg w emailList subject body cb st = None"
proof -
  have "batchSize_of cfg \<le> 0" using assms(1) by (simp add: batchSize_of_def)
  moreover have "0 < int (length emailList)" using assms(2) by simp
  ultimately show ?thesis
    by (simp add: sendBulkEmails_def Let_def bulk_loop_diverges)
qed

subsection \<open>The batch size is read through its default only\<close>

lemma batchSize_irrelevant:
  "backendApiUrl (cfg \<lparr> email_batchSize := x \<rparr>) = backendApiUrl cfg"
  "outcome (cfg \<lparr> email_batchSize := x \<rparr>) = outcome cfg"
  "outcomes (cfg \<lparr> email_batchSize := x \<rparr>) = outcomes cfg"
  "snapshot (cfg \<lparr> email_batchSize := x \<rparr>) = snapshot cfg"
  "group_work (cfg \<lparr> email_batchSize := x \<rparr>) = group_work cfg"
  "group_events (cfg \<lparr> email_batchSize := x \<rparr>) = group_events cfg"
  "state_after (cfg \<lparr> email_batchSize := x \<rparr>) = state_after cfg"
  "delay_of (cfg \<lparr> email_batchSize := x \<rparr>) = delay_of cfg"
proof -
  show 1: "backendApiUrl (cfg \<lparr> email_batchSize := x \<rparr>) = backendApiUrl cfg"
    by (simp add: backendApiUrl_def)
  show 2: "outcome (cfg \<lparr> email_batchSize := x \<rparr>) = outcome cfg"
    by (simp add: fun_eq_iff outcome_def 1)
  show 3: "outcomes (cfg \<lparr> email_batchSize := x \<rparr>) = outcomes cfg"
    by (simp add: fun_eq_iff outcomes_def 2)
  show 4: "snapshot (cfg \<lparr> email_batchSize := x \<rparr>) = snapshot cfg"
    by (simp add: fun_eq_iff snapshot_def 3)
  show 5: "group_work (cfg \<lparr> email_batchSize := x \<rparr>) = group_work cfg"
    by (simp add: fun_eq_iff group_work_def 1 4)
  show 6: "group_events (cfg \<lparr> email_batchSize := x \<rparr>) = group_events cfg"
    by (simp add: fun_eq_iff group_events_def 5)
  show "state_after (cfg \<lparr> email_batchSize := x \<rparr>) = state_after cfg"
    by (simp add: fun_eq_iff state_after_def 3 6)
  show "delay_of (cfg \<lparr> email_batchSize := x \<rparr>) = delay_of cfg"
    by (simp add: delay_of_def)
qed

lemma final_state_default_batch:
  "final_state (cfg \<lparr> email_batchSize := 0 \<rparr>) w emailList subject body cb st
   = final_state (cfg \<lparr> email_batchSize := 10 \<rparr>) w emailList subject body cb st"
  by (simp add: final_state_def batchSize_irrelevant batchSize_of_def)

section \<open>Properties of a run\<close>

text \<open>
  C1. For every recipient list of length \<open>n\<close>, every subject and every body (and a
  batch size that is not negative), \<open>sendBulkEmails\<close> resolves with a result whose
  \<open>total\<close> is \<open>n\<close>, whose \<open>successCount + failureCount\<close> is \<open>n\<close>, and whose
  \<open>success\<close> and \<open>failure\<close> lists have the lengths \<open>successCount\<close> and
  \<open>failureCount\<close>: every entry yields one outcome and none is dropped.
\<close>

theorem sendBulkEmails_counts_every_recipient:
  assumes "0 \<le> email_batchSize cfg"
  shows "\<exists>st' res.
           sendBulkEmails cfg w emailList subject body cb st = Some (Inr (st', res))
         \<and> r_total res = int (length emailList)
         \<and> r_successCount res + r_failureCount res = int (length emailList)
         \<and> int (length (r_success res)) = r_successCount res
         \<and> int (length (r_failure res)) = r_failureCount res
         \<and> r_success res = results_success st'
         \<and> r_failure res = results_failure st'"
proof -
  have b: "1 \<le> batchSize_of cfg" using assms by (rule batchSize_of_pos)
  have "length (filter succeeded (outcomes cfg w subject body (calls st) emailList))
        + length (filter (\<lambda>v. \<not> succeeded v) (outcomes cfg w subject body (calls st) emailList))
        = length emailList"
    by (simp add: sum_length_filter_compl)
  then show ?thesis
    by (simp add: sendBulkEmails_closed [OF b] final_state_fields [OF b] flip: of_nat_add)
qed

theorem sendBulkEmails_counts_every_recipient_witness:
  "0 \<le> email_batchSize Config
   \<and> (\<exists>st' res.
           sendBulkEmails Config example_world
              [''ann@example.com'', ''bob@example.com'', ''ann@example.com'']
              ''Hello'' ''<p>Hi</p>'' True idle_state = Some (Inr (st', res))
         \<and> r_total res = 3
         \<and> r_successCount res + r_failureCount res = 3
         \<and> int (length (r_success res)) = r_successCount res
         \<and> int (length (r_failure res)) = r_failureCount res
         \<and> r_success res = results_success st'
         \<and> r_failure res = results_failure st')"
proof -
  have h: "0 \<le> email_batchSize Config" by (simp add: Config_def)
  show ?thesis
    using h sendBulkEmails_counts_every_recipient [OF h, of example_world
        "[''ann@example.com'', ''bob@example.com'', ''ann@example.com'']"
        "''Hello''" "''<p>Hi</p>''" True idle_state]
    by simp
qed

text \<open>
  C2. If the transport of the send fails for the recipient at position \<open>k\<close> (the
  fetch rejects, or reading the response rejects), that recipient's outcome is the
  failure object with \<open>errorCode\<close> \<open>NETWORK_ERROR\<close> and is in the failure list, every
  recipient still has its outcome in one of the two lists, and \<open>sendBulkEmails\<close>
  resolves: the failure does not escape.
\<close>

theorem transport_failure_is_isolated:
  assumes "0 \<le> email_batchSize cfg" and "k < length emailList"
    and "fetch w (calls st + k) (backendApiUrl cfg) (mk_request subject body (emailList ! k))
           = FetchRejects e
         \<or> fetch w (calls st + k) (backendApiUrl cfg) (mk_request subject body (emailList ! k))
           = JsonRejects e"
  shows "\<exists>st' res.
           sendBulkEmails cfg w emailList subject body cb st = Some (Inr (st', res))
         \<and> outcomes cfg w subject body (calls st) emailList ! k
             = network_failure w (calls st + k) (mk_request subject body (emailList ! k)) e
         \<and> get_prop (outcomes cfg w subject body (calls st) emailList ! k) ''errorCode''
             = Inr (Some (JStr ''NETWORK_ERROR''))
         \<and> outcomes cfg w subject body (calls st) emailList ! k \<in> set (r_failure res)
         \<and> r_success res = filter succeeded (outcomes cfg w subject body (calls st) emailList)
         \<and> r_failure res
             = filter (\<lambda>v. \<not> succeeded v) (outcomes cfg w subject body (calls st) emailList)
         \<and> length (r_success res) + length (r_failure res) = length emailList"
proof -
  let ?outs = "outcomes cfg w subject body (calls st) emailList"
  have b: "1 \<le> batchSize_of cfg" using assms(1) by (rule batchSize_of_pos)
  have thrown: "sendEmail_try w (calls st + k) (backendApiUrl cfg)
                  (mk_request subject body (emailList ! k)) = Inl e"
    using assms(3) by (rule sendEmail_try_rejects)
  have at_k: "?outs ! k = network_failure w (calls st + k) (mk_request subject body (emailList ! k)) e"
    using assms(2) thrown by (simp add: nth_outcomes outcome_of_throw)
  have "?outs ! k \<in> set ?outs" using assms(2) by simp
  then have mem: "?outs ! k \<in> set (filter (\<lambda>v. \<not> succeeded v) ?outs)"
    by (simp add: at_k network_failure_not_succeeded)
  have len: "length (filter succeeded ?outs) + length (filter (\<lambda>v. \<not> succeeded v) ?outs)
        = length emailList"
    by (simp add: sum_length_filter_compl)
  show ?thesis
    using mem len
    by (simp add: sendBulkEmails_closed [OF b] final_state_fields [OF b] at_k
        network_failure_errorCode)
qed

theorem transport_failure_is_isolated_witness:
  "\<exists>st' res.
      sendBulkEmails Config example_world [''ann@example.com'', ''bob@example.com'']
        ''Hello'' ''<p>Hi</p>'' True idle_state = Some (Inr (st', res))
    \<and> get_prop (outcomes Config example_world ''Hello'' ''<p>Hi</p>'' 0
                   [''ann@example.com'', ''bob@example.com''] ! 0) ''errorCode''
        = Inr (Some (JStr ''NETWORK_ERROR''))
    \<and> outcomes Config example_world ''Hello'' ''<p>Hi</p>'' 0
         [''ann@example.com'', ''bob@example.com''] ! 0 \<in> set (r_failure res)
    \<and> length (r_success res) + length (r_failure res) = 2"
proof -
  have h1: "0 \<le> email_batchSize Config" by (simp add: Config_def)
  have h2: "0 < length [''ann@example.com'', ''bob@example.com'']" by simp
  have h3: "fetch example_world (calls idle_state + 0) (backendApiUrl Config)
              (mk_request ''Hello'' ''<p>Hi</p>'' ([''ann@example.com'', ''bob@example.com''] ! 0))
            = FetchRejects (Error ''Failed to fetch'')
          \<or> fetch example_world (calls idle_state + 0) (backendApiUrl Config)
              (mk_request ''Hello'' ''<p>Hi</p>'' ([''ann@example.com'', ''bob@example.com''] ! 0))
            = JsonRejects (Error ''Failed to fetch'')"
    by (simp add: example_world_def idle_state_def)
  have c0: "calls idle_state = 0" by (simp add: idle_state_def)
  show ?thesis
    using transport_failure_is_isolated [OF h1 h2 h3, of True] unfolding c0 by auto
qed

text \<open>
  C3. In a run over \<open>n\<close> recipients with batch size \<open>b \<ge> 1\<close> and a progress
  callback, the effects are those of the groups \<open>0, \<dots>, m - 1\<close> in order, where
  \<open>m = ceil(n / b)\<close>, and each group calls the callback exactly once, with its
  snapshot. The processed counts reported are \<open>min ((k + 1) * b) n\<close>, so they never
  decrease; every snapshot reports the total \<open>n\<close>, and a processed count that is the
  sum of its success and failure counts.
\<close>

theorem progress_reported_once_per_group:
  assumes "0 \<le> email_batchSize cfg"
  shows "let b = nat (batchSize_of cfg);
             n = length emailList;
             m = group_count n b;
             G = group_events cfg w emailList subject body True b (delay_of cfg) (calls st)
         in \<exists>st' res ps.
              sendBulkEmails cfg w emailList subject body True st = Some (Inr (st', res))
            \<and> events st' = events st @ concat (map G [0..<m])
            \<and> map (\<lambda>k. progress_calls (G k)) [0..<m]
                = map (\<lambda>k. [snapshot cfg w emailList subject body (calls st) b k]) [0..<m]
            \<and> ps = progress_calls (concat (map G [0..<m]))
            \<and> length ps = m
            \<and> int m = \<lceil>real n / real b\<rceil>
            \<and> map p_processed ps = map (\<lambda>k. min (int ((k + 1) * b)) (int n)) [0..<m]
            \<and> sorted (map p_processed ps)
            \<and> list_all (\<lambda>p. p_total p = int n \<and> p_processed p = p_success p + p_failure p) ps"
proof -
  let ?b = "nat (batchSize_of cfg)"
  let ?m = "group_count (length emailList) ?b"
  let ?G = "group_events cfg w emailList subject body True ?b (delay_of cfg) (calls st)"
  let ?ps = "progress_calls (concat (map ?G [0..<?m]))"
  have b: "1 \<le> batchSize_of cfg" using assms by (rule batchSize_of_pos)
  then have b0: "0 < ?b" by simp
  have ps: "?ps = map (snapshot cfg w emailList subject body (calls st) ?b) [0..<?m]"
    by (simp add: progress_calls_concat progress_calls_group_events concat_singletons)
  have proc: "map p_processed ?ps = map (\<lambda>k. min (int ((k + 1) * ?b)) (int (length emailList))) [0..<?m]"
    unfolding ps by (simp add: snapshot_fields(1) add.commute del: of_nat_add of_nat_mult)
  have "sorted (map (\<lambda>k. min (int ((k + 1) * ?b)) (int (length emailList))) [0..<?m])"
    by (rule sorted_map_upt) (simp add: min_le_iff_disj mult_le_mono1 del: of_nat_add of_nat_mult)
  then have srt: "sorted (map p_processed ?ps)" by (simp only: proc)
  have all: "list_all (\<lambda>p. p_total p = int (length emailList)
                \<and> p_processed p = p_success p + p_failure p) ?ps"
    unfolding ps by (simp add: list_all_iff snapshot_fields(2) snapshot_fields(3) [symmetric])
  show ?thesis
    unfolding Let_def
    using srt all proc
    by (simp add: sendBulkEmails_closed [OF b] final_state_fields [OF b]
        progress_calls_group_events group_count_ceiling [OF b0] ps)
qed

theorem progress_reported_once_per_group_witness:
  "0 \<le> email_batchSize Config
   \<and> (\<exists>st' res.
         sendBulkEmails Config example_world (replicate 25 ''ann@example.com'')
           ''Hello'' ''<p>Hi</p>'' True idle_state = Some (Inr (st', res))
       \<and> map p_processed (progress_calls (events st')) = [10, 20, 25]
       \<and> map p_total (progress_calls (events st')) = [25, 25, 25])"
proof -
  have h: "0 \<le> email_batchSize Config" by (simp add: Config_def)
  have b: "nat (batchSize_of Config) = 10" by (simp add: Config_def batchSize_of_def)
  have m: "group_count 25 10 = 3" by (simp add: group_count_def)
  have u: "[0..<3] = [0, 1, 2]" by (simp add: upt_rec)
  have e: "events idle_state = []" by (simp add: idle_state_def)
  from progress_reported_once_per_group [OF h, of "replicate 25 ''ann@example.com''" example_world "''Hello''" "''<p>Hi</p>''"
      idle_state]
  obtain st' res ps where
    run: "sendBulkEmails Config example_world (replicate 25 ''ann@example.com'')
           ''Hello'' ''<p>Hi</p>'' True idle_state = Some (Inr (st', res))"
    and ev: "events st' = concat (map (group_events Config example_world
               (replicate 25 ''ann@example.com'') ''Hello'' ''<p>Hi</p>'' True 10
               (delay_of Config) (calls idle_state)) [0..<3])"
    and ps: "ps = progress_calls (concat (map (group_events Config example_world
               (replicate 25 ''ann@example.com'') ''Hello'' ''<p>Hi</p>'' True 10
               (delay_of Config) (calls idle_state)) [0..<3]))"
    and proc: "map p_processed ps = map (\<lambda>k. min (int ((k + 1) * 10)) (int 25)) [0..<3]"
    and tot: "list_all (\<lambda>p. p_total p = int 25 \<and> p_processed p = p_success p + p_failure p) ps"
    unfolding Let_def b length_replicate m e append_Nil by blast
  have len: "length ps = 3" using arg_cong [OF proc, of length] by simp
  have p1: "map p_processed (progress_calls (events st')) = [10, 20, 25]"
    using proc unfolding ev ps u by simp
  have p2: "map p_total (progress_calls (events st')) = [25, 25, 25]"
  proof -
    have "map p_total ps = map (\<lambda>p. 25) ps"
      by (rule map_cong) (use tot in \<open>auto simp: list_all_iff\<close>)
    then have "map p_total ps = replicate 3 25"
      by (simp add: map_replicate_const len)
    then show ?thesis unfolding ev ps [symmetric] by (simp add: numeral_3_eq_3)
  qed
  have "\<exists>st' res.
         sendBulkEmails Config example_world (replicate 25 ''ann@example.com'')
           ''Hello'' ''<p>Hi</p>'' True idle_state = Some (Inr (st', res))
       \<and> map p_processed (progress_calls (events st')) = [10, 20, 25]
       \<and> map p_total (progress_calls (events st')) = [25, 25, 25]"
    by (rule exI [of _ st'], rule exI [of _ res]) (simp add: run p1 p2)
  with h show ?thesis by (rule conjI)
qed

text \<open>
  C4. With batch size \<open>b \<ge> 1\<close> the groups sent (the fetches issued before each
  \<open>await Promise.all\<close>) are the contiguous slices \<open>take b (drop (k * b) emailList)\<close>
  for \<open>k < m\<close>, \<open>m = ceil(n / b)\<close>: none is empty or longer than \<open>b\<close>, all but the
  last have exactly \<open>b\<close> entries, and together they are the input list, so every
  entry, duplicates included, is sent exactly once and in input order.
\<close>

theorem recipients_sent_in_contiguous_groups:
  assumes "0 \<le> email_batchSize cfg"
  shows "let b = nat (batchSize_of cfg);
             n = length emailList;
             m = group_count n b
         in \<exists>st' res tr gs.
              sendBulkEmails cfg w emailList subject body cb st = Some (Inr (st', res))
            \<and> events st' = events st @ tr
            \<and> gs = sent_groups [] tr
            \<and> gs = map (\<lambda>k. map (mk_request subject body) (take b (drop (k * b) emailList))) [0..<m]
            \<and> concat gs = map (mk_request subject body) emailList
            \<and> fetched tr = map (mk_request subject body) emailList
            \<and> list_all (\<lambda>g. 0 < length g \<and> length g \<le> b) gs
            \<and> list_all (\<lambda>g. length g = b) (butlast gs)
            \<and> length gs = m
            \<and> int m = \<lceil>real n / real b\<rceil>"
proof -
  let ?b = "nat (batchSize_of cfg)"
  let ?m = "group_count (length emailList) ?b"
  let ?G = "group_events cfg w emailList subject body cb ?b (delay_of cfg) (calls st)"
  let ?tr = "concat (map ?G [0..<?m])"
  let ?grp = "\<lambda>k. map (mk_request subject body) (take ?b (drop (k * ?b) emailList))"
  have b: "1 \<le> batchSize_of cfg" using assms by (rule batchSize_of_pos)
  then have b0: "0 < ?b" by simp
  have gs: "sent_groups [] ?tr = map ?grp [0..<?m]"
    by (rule sent_groups_concat)
  have "concat (map ?grp [0..<?m])
        = map (mk_request subject body) (concat (map (\<lambda>k. take ?b (drop (k * ?b) emailList)) [0..<?m]))"
    by (simp add: map_concat comp_def)
  then have cat: "concat (map ?grp [0..<?m]) = map (mk_request subject body) emailList"
    by (simp only: concat_groups take_group_count [OF b0])
  have fe: "fetched ?tr = map (mk_request subject body) emailList"
    by (simp only: fetched_concat fetched_group_events cat)
  have sz: "list_all (\<lambda>g. 0 < length g \<and> length g \<le> ?b) (map ?grp [0..<?m])"
    using group_size [OF b0, of _ emailList]
    by (simp add: list_all_iff del: length_take length_drop)
  have "butlast (map ?grp [0..<?m]) = map ?grp [0..<?m - 1]"
    by (simp add: map_butlast [symmetric] butlast_upt0)
  moreover have "list_all (\<lambda>g. length g = ?b) (map ?grp [0..<?m - 1])"
    using full_group_size [OF b0, of _ emailList]
    by (simp add: list_all_iff del: length_take length_drop)
  ultimately have full: "list_all (\<lambda>g. length g = ?b) (butlast (map ?grp [0..<?m]))"
    by simp
  show ?thesis
    unfolding Let_def
    apply (rule exI [of _ "final_state cfg w emailList subject body cb st"])
    apply (simp only: sendBulkEmails_closed [OF b] final_state_fields [OF b])
    apply (rule exI, rule exI [of _ ?tr], rule exI [of _ "map ?grp [0..<?m]"])
    using sz full
    apply (simp add: gs cat fe group_count_ceiling [OF b0])
    done
qed

theorem recipients_sent_in_contiguous_groups_witness:
  "0 \<le> email_batchSize Config
   \<and> (\<exists>st' res.
         sendBulkEmails Config example_world (replicate 25 ''ann@example.com'')
           ''Hello'' ''<p>Hi</p>'' False idle_state = Some (Inr (st', res))
       \<and> map length (sent_groups [] (events st')) = [10, 10, 5]
       \<and> fetched (events st')
           = replicate 25 (mk_request ''Hello'' ''<p>Hi</p>'' ''ann@example.com''))"
proof -
  let ?es = "replicate 25 ''ann@example.com''"
  have h: "0 \<le> email_batchSize Config" by (simp add: Config_def)
  have b: "nat (batchSize_of Config) = 10" by (simp add: Config_def batchSize_of_def)
  have m: "group_count 25 10 = 3" by (simp add: group_count_def)
  have u: "[0..<3] = [0, 1, 2]" by (simp add: upt_rec)
  have e: "events idle_state = []" by (simp add: idle_state_def)
  from recipients_sent_in_contiguous_groups [OF h, of ?es example_world "''Hello''" "''<p>Hi</p>''" False idle_state]
  obtain st' res tr gs where
    run: "sendBulkEmails Config example_world ?es ''Hello'' ''<p>Hi</p>'' False idle_state
            = Some (Inr (st', res))"
    and ev: "events st' = tr"
    and gs: "gs = sent_groups [] tr"
    and gs': "gs = map (\<lambda>k. map (mk_request ''Hello'' ''<p>Hi</p>'') (take 10 (drop (k * 10) ?es)))
                    [0..<3]"
    and fe: "fetched tr = map (mk_request ''Hello'' ''<p>Hi</p>'') ?es"
    unfolding Let_def b length_replicate m e append_Nil by blast
  have p1: "map length (sent_groups [] (events st')) = [10, 10, 5]"
    unfolding ev gs [symmetric] gs' u by simp
  have p2: "fetched (events st') = replicate 25 (mk_request ''Hello'' ''<p>Hi</p>'' ''ann@example.com'')"
    unfolding ev fe by simp
  have "\<exists>st' res.
         sendBulkEmails Config example_world (replicate 25 ''ann@example.com'')
           ''Hello'' ''<p>Hi</p>'' False idle_state = Some (Inr (st', res))
       \<and> map length (sent_groups [] (events st')) = [10, 10, 5]
       \<and> fetched (events st')
           = replicate 25 (mk_request ''Hello'' ''<p>Hi</p>'' ''ann@example.com'')"
    by (rule exI [of _ st'], rule exI [of _ res]) (simp add: run p1 p2)
  with h show ?thesis by (rule conjI)
qed

text \<open>
  C5, amended. With batch size \<open>b \<ge> 1\<close> the run sets a timer after every group but
  the last and none after the last, whatever the outcomes of the sends (also when all
  of them fail); the delay of each timer is the configured \<open>delayBetweenBatches\<close> when
  that is not 0, and 1000 when it is 0.
\<close>

theorem timer_set_between_groups:
  assumes "0 \<le> email_batchSize cfg"
  shows "let b = nat (batchSize_of cfg);
             n = length emailList;
             m = group_count n b;
             d = delay_of cfg
         in \<exists>st' res tr.
              sendBulkEmails cfg w emailList subject body cb st = Some (Inr (st', res))
            \<and> events st' = events st @ tr
            \<and> tr = concat (map (\<lambda>k. group_work cfg w emailList subject body cb b (calls st) k
                                    @ (if Suc k < m then [SetTimeout d] else [])) [0..<m])
            \<and> (\<forall>k. timers (group_work cfg w emailList subject body cb b (calls st) k) = [])
            \<and> timers tr = replicate (m - 1) d
            \<and> d = (if email_delayBetweenBatches cfg \<noteq> 0 then email_delayBetweenBatches cfg
                    else 1000)"
proof -
  let ?b = "nat (batchSize_of cfg)"
  let ?m = "group_count (length emailList) ?b"
  let ?W = "group_work cfg w emailList subject body cb ?b (calls st)"
  let ?H = "\<lambda>k. ?W k @ (if Suc k < ?m then [SetTimeout (delay_of cfg)] else [])"
  have b: "1 \<le> batchSize_of cfg" using assms by (rule batchSize_of_pos)
  then have b0: "0 < ?b" by simp
  have G: "group_events cfg w emailList subject body cb ?b (delay_of cfg) (calls st) = ?H"
    by (rule ext) (simp add: group_events_def more_groups_remain [OF b0])
  have "timers (concat (map ?H [0..<?m]))
        = concat (map (\<lambda>k. if Suc k < ?m then [delay_of cfg] else []) [0..<?m])"
    unfolding timers_concat
    by (rule arg_cong [of _ _ concat], rule map_cong) (simp_all add: timers_append timers_group_work)
  then have t: "timers (concat (map ?H [0..<?m])) = replicate (?m - 1) (delay_of cfg)"
    by (simp only: concat_all_but_last)
  have d: "delay_of cfg = (if email_delayBetweenBatches cfg \<noteq> 0
                           then email_delayBetweenBatches cfg else 1000)"
    by (simp add: delay_of_def)
  show ?thesis
    unfolding Let_def
    using t d [symmetric]
    by (simp add: sendBulkEmails_closed [OF b] final_state_fields [OF b] G timers_group_work)
qed

theorem timer_set_between_groups_witness:
  "0 \<le> email_batchSize Config
   \<and> (\<exists>st' res.
         sendBulkEmails Config failing_world (replicate 25 ''ann@example.com'')
           ''Hello'' ''<p>Hi</p>'' False idle_state = Some (Inr (st', res))
       \<and> timers (events st') = [1000, 1000])"
proof -
  let ?es = "replicate 25 ''ann@example.com''"
  have h: "0 \<le> email_batchSize Config" by (simp add: Config_def)
  have b: "nat (batchSize_of Config) = 10" by (simp add: Config_def batchSize_of_def)
  have d: "delay_of Config = 1000" by (simp add: Config_def delay_of_def)
  have m: "group_count 25 10 = 3" by (simp add: group_count_def)
  have e: "events idle_state = []" by (simp add: idle_state_def)
  from timer_set_between_groups [OF h, of ?es failing_world "''Hello''" "''<p>Hi</p>''" False idle_state]
  obtain st' res tr where
    run: "sendBulkEmails Config failing_world ?es ''Hello'' ''<p>Hi</p>'' False idle_state
            = Some (Inr (st', res))"
    and ev: "events st' = tr"
    and t: "timers tr = replicate (3 - 1) 1000"
    unfolding Let_def b d length_replicate m e append_Nil by blast
  have p: "timers (events st') = [1000, 1000]"
    unfolding ev t by (simp add: numeral_2_eq_2)
  have "\<exists>st' res.
         sendBulkEmails Config failing_world (replicate 25 ''ann@example.com'')
           ''Hello'' ''<p>Hi</p>'' False idle_state = Some (Inr (st', res))
       \<and> timers (events st') = [1000, 1000]"
    by (rule exI [of _ st'], rule exI [of _ res]) (simp add: run p)
  with h show ?thesis by (rule conjI)
qed

text \<open>
  C5 as stated fails for a configured delay of 0: between the two groups the run
  waits 1000 ms.
\<close>

theorem zero_delay_waits_a_second:
  "email_delayBetweenBatches (Config \<lparr> email_batchSize := 1, email_delayBetweenBatches := 0 \<rparr>) = 0
   \<and> map_option events
        (settled_state
          (sendBulkEmails (Config \<lparr> email_batchSize := 1, email_delayBetweenBatches := 0 \<rparr>)
             example_world [''ann@example.com'', ''bob@example.com'']
             ''Hello'' ''<p>Hi</p>'' False idle_state))
     = Some [FetchCall ''/api/send-email'' (mk_request ''Hello'' ''<p>Hi</p>'' ''ann@example.com''),
             AwaitAll 1,
             SetTimeout 1000,
             FetchCall ''/api/send-email'' (mk_request ''Hello'' ''<p>Hi</p>'' ''bob@example.com''),
             AwaitAll 1]"
  by code_simp



text \<open>
  C7, amended. \<open>sendBulkEmails\<close> does not check the batch size: a configured batch
  size of 0 is replaced by the default 10, and the run is the one with batch size 10,
  sends included.
\<close>

theorem batch_size_is_not_validated:
  "sendBulkEmails (cfg \<lparr> email_batchSize := 0 \<rparr>) w emailList subject body cb st
     = sendBulkEmails (cfg \<lparr> email_batchSize := 10 \<rparr>) w emailList subject body cb st"
proof -
  have "1 \<le> batchSize_of (cfg \<lparr> email_batchSize := 0 \<rparr>)"
    and "1 \<le> batchSize_of (cfg \<lparr> email_batchSize := 10 \<rparr>)"
    by (simp_all add: batchSize_of_def)
  then show ?thesis
    by (simp only: sendBulkEmails_closed final_state_default_batch)
qed

text \<open>
  C7 as stated fails. With batch size 0 the run is not rejected: it sends and
  resolves. With batch size -1 it is not rejected either: the first iteration sends to
  \<open>slice(0, -1)\<close> of the list, and the loop never ends, so the promise never settles.
\<close>

theorem nonpositive_batch_size_is_not_rejected:
  "email_batchSize (Config \<lparr> email_batchSize := 0 \<rparr>) < 1
   \<and> map_option events
        (settled_state
          (sendBulkEmails (Config \<lparr> email_batchSize := 0 \<rparr>)
             example_world [''ann@example.com''] ''Hello'' ''<p>Hi</p>'' False idle_state))
     = Some [FetchCall ''/api/send-email'' (mk_request ''Hello'' ''<p>Hi</p>'' ''ann@example.com''),
             AwaitAll 1]
   \<and> email_batchSize (Config \<lparr> email_batchSize := - 1 \<rparr>) < 1
   \<and> map_sum fst events
        (batch_iteration (Config \<lparr> email_batchSize := - 1 \<rparr>) example_world
           [''ann@example.com'', ''bob@example.com''] ''Hello'' ''<p>Hi</p>'' False
           (batchSize_of (Config \<lparr> email_batchSize := - 1 \<rparr>))
           (delay_of (Config \<lparr> email_batchSize := - 1 \<rparr>)) 0 (reset idle_state))
     = Inr [FetchCall ''/api/send-email'' (mk_request ''Hello'' ''<p>Hi</p>'' ''ann@example.com''),
            AwaitAll 1,
            SetTimeout 1000]
   \<and> sendBulkEmails (Config \<lparr> email_batchSize := - 1 \<rparr>) example_world
         [''ann@example.com'', ''bob@example.com''] ''Hello'' ''<p>Hi</p>'' False idle_state
       = None"
proof -
  have "sendBulkEmails (Config \<lparr> email_batchSize := - 1 \<rparr>) example_world
         [''ann@example.com'', ''bob@example.com''] ''Hello'' ''<p>Hi</p>'' False idle_state
       = None"
    by (rule sendBulkEmails_negative_batch) simp_all
  moreover have "email_batchSize (Config \<lparr> email_batchSize := 0 \<rparr>) < 1
   \<and> map_option events
        (settled_state
          (sendBulkEmails (Config \<lparr> email_batchSize := 0 \<rparr>)
             example_world [''ann@example.com''] ''Hello'' ''<p>Hi</p>'' False idle_state))
     = Some [FetchCall ''/api/send-email'' (mk_request ''Hello'' ''<p>Hi</p>'' ''ann@example.com''),
             AwaitAll 1]
   \<and> email_batchSize (Config \<lparr> email_batchSize := - 1 \<rparr>) < 1
   \<and> map_sum fst events
        (batch_iteration (Config \<lparr> email_batchSize := - 1 \<rparr>) example_world
           [''ann@example.com'', ''bob@example.com''] ''Hello'' ''<p>Hi</p>'' False
           (batchSize_of (Config \<lparr> email_batchSize := - 1 \<rparr>))
           (delay_of (Config \<lparr> email_batchSize := - 1 \<rparr>)) 0 (reset idle_state))
     = Inr [FetchCall ''/api/send-email'' (mk_request ''Hello'' ''<p>Hi</p>'' ''ann@example.com''),
            AwaitAll 1,
            SetTimeout 1000]"
    by code_simp
  ultimately show ?thesis by simp
qed

text \<open>
  C8. For an empty recipient list \<open>sendBulkEmails\<close> resolves, with \<open>total\<close> 0 and
  empty \<open>success\<close> and \<open>failure\<close> lists; the run has no effect (no fetch, no progress
  callback, no timer) beyond emptying the ledger, and \<open>getSummary\<close> then reports
  \<open>successRate\<close> 0.
\<close>

theorem empty_list_run:
  "sendBulkEmails cfg w [] subject body cb st
     = Some (Inr (reset st,
                  \<lparr> r_success = [], r_failure = [], r_total = 0,
                    r_successCount = 0, r_failureCount = 0 \<rparr>))
   \<and> events (reset st) = events st
   \<and> calls (reset st) = calls st
   \<and> getSuccessList (reset st) = []
   \<and> getFailureList (reset st) = []
   \<and> s_total (getSummary (reset st)) = 0
   \<and> s_successRate (getSummary (reset st)) = 0"
  by (simp add: sendBulkEmails_def Let_def bulk_loop.simps reset_def getSuccessList_def
      getFailureList_def getSummary_def js_divide_def)

text \<open>
  C9. The promise of \<open>sendEmail\<close> always fulfils, with \<open>outcome\<close>: whatever is thrown
  in the \<open>try\<close> block (the fetch rejecting, \<open>response.json()\<close> rejecting, a property
  read on \<open>null\<close>) becomes the failure object, whose \<open>errorCode\<close> is
  \<open>NETWORK_ERROR\<close>; so \<open>Promise.all\<close> over the sends of a group fulfils too.
\<close>

theorem sendEmail_never_rejects:
  "snd (sendEmail cfg w toEmail subject body st) = Inr (outcome cfg w subject body (calls st) toEmail)
   \<and> (\<forall>e. sendEmail_try w (calls st) (backendApiUrl cfg) (mk_request subject body toEmail) = Inl e
          \<longrightarrow> outcome cfg w subject body (calls st) toEmail
                = network_failure w (calls st) (mk_request subject body toEmail) e)
   \<and> (\<forall>e. fetch w (calls st) (backendApiUrl cfg) (mk_request subject body toEmail) = FetchRejects e
          \<longrightarrow> outcome cfg w subject body (calls st) toEmail
                = network_failure w (calls st) (mk_request subject body toEmail) e)
   \<and> (\<forall>e. fetch w (calls st) (backendApiUrl cfg) (mk_request subject body toEmail) = JsonRejects e
          \<longrightarrow> outcome cfg w subject body (calls st) toEmail
                = network_failure w (calls st) (mk_request subject body toEmail) e)
   \<and> get_prop (network_failure w k req err) ''errorCode'' = Inr (Some (JStr ''NETWORK_ERROR''))
   \<and> \<not> succeeded (network_failure w k req err)
   \<and> promise_all (snd (send_batch cfg w subject body batch st))
        = Inr (outcomes cfg w subject body (calls st) batch)"
  by (simp add: sendEmail_def sendEmail_settle_outcome outcome_of_throw sendEmail_try_rejects
      network_failure_errorCode network_failure_not_succeeded send_batch_closed promise_all_Inr)

theorem sendEmail_never_rejects_witness:
  "snd (sendEmail Config example_world ''ann@example.com'' ''Hello'' ''<p>Hi</p>'' idle_state)
     = Inr (JObj [(''success'', JBool False),
                  (''email'', JStr ''ann@example.com''),
                  (''subject'', JStr ''Hello''),
                  (''attemptedAt'', JDate (JNum 1700000000000)),
                  (''errorMessage'', JStr ''Failed to fetch''),
                  (''errorCode'', JStr ''NETWORK_ERROR'')])"
  using sendEmail_never_rejects [of Config example_world "''ann@example.com''" "''Hello''" "''<p>Hi</p>''" idle_state]
  by (simp add: example_world_def idle_state_def network_failure_def mk_request_def)

text \<open>
  C10. The \<open>success\<close> list of the result is the outcomes of the recipients, taken in
  input order, whose \<open>success\<close> is truthy, and the \<open>failure\<close> list is the others, in
  input order as well; the \<open>k\<close>-th outcome is that of the \<open>k\<close>-th recipient.
\<close>

theorem ledger_keeps_input_order:
  assumes "0 \<le> email_batchSize cfg"
  shows "\<exists>st' res.
           sendBulkEmails cfg w emailList subject body cb st = Some (Inr (st', res))
         \<and> r_success res = filter succeeded (outcomes cfg w subject body (calls st) emailList)
         \<and> r_failure res
             = filter (\<lambda>v. \<not> succeeded v) (outcomes cfg w subject body (calls st) emailList)
         \<and> getSuccessList st' = r_success res
         \<and> getFailureList st' = r_failure res
         \<and> outcomes cfg w subject body (calls st) emailList
             = map (\<lambda>(k, toEmail). outcome cfg w subject body k toEmail)
                 (zip [calls st ..< calls st + length emailList] emailList)"
proof -
  have b: "1 \<le> batchSize_of cfg" using assms by (rule batchSize_of_pos)
  show ?thesis
    by (simp add: sendBulkEmails_closed [OF b] final_state_fields [OF b]
        getSuccessList_def getFailureList_def outcomes_def enumerate_eq_zip)
qed

theorem ledger_keeps_input_order_witness:
  "\<exists>st' res.
      sendBulkEmails Config example_world [''ann@example.com'', ''bob@example.com'', ''cyd@example.com'']
        ''Hello'' ''<p>Hi</p>'' True idle_state = Some (Inr (st', res))
    \<and> map (\<lambda>v. get_prop v ''email'') (r_success res)
        = [Inr (Some (JStr ''bob@example.com'')), Inr (Some (JStr ''cyd@example.com''))]
    \<and> map (\<lambda>v. get_prop v ''email'') (r_failure res) = [Inr (Some (JStr ''ann@example.com''))]"
proof -
  let ?es = "[''ann@example.com'', ''bob@example.com'', ''cyd@example.com'']"
  have h: "0 \<le> email_batchSize Config" by (simp add: Config_def)
  have c0: "calls idle_state = 0" by (simp add: idle_state_def)
  have outs: "outcomes Config example_world ''Hello'' ''<p>Hi</p>'' 0 ?es
        = [JObj [(''success'', JBool False),
                  (''email'', JStr ''ann@example.com''),
                  (''subject'', JStr ''Hello''),
                  (''attemptedAt'', JDate (JNum 1700000000000)),
                  (''errorMessage'', JStr ''Failed to fetch''),
                  (''errorCode'', JStr ''NETWORK_ERROR'')],
           JObj [(''success'', JBool True), (''email'', JStr ''bob@example.com''),
                 (''sentAt'', JDate (JStr ''2024-01-01T00:00:00.000Z'')),
                 (''messageId'', JStr ''m1'')],
           JObj [(''success'', JBool True), (''email'', JStr ''cyd@example.com''),
                 (''sentAt'', JDate (JStr ''2024-01-01T00:00:00.000Z'')),
                 (''messageId'', JStr ''m1'')]]"
    by (simp add: outcomes_def outcome_def sendEmail_try_def example_world_def mk_request_def
        network_failure_def)
  from ledger_keeps_input_order [OF h, of example_world ?es "''Hello''" "''<p>Hi</p>''" True idle_state]
  obtain st' res where
    run: "sendBulkEmails Config example_world ?es ''Hello'' ''<p>Hi</p>'' True idle_state
            = Some (Inr (st', res))"
    and s: "r_success res
            = filter succeeded (outcomes Config example_world ''Hello'' ''<p>Hi</p>'' (calls idle_state) ?es)"
    and f: "r_failure res
            = filter (\<lambda>v. \<not> succeeded v)
                (outcomes Config example_world ''Hello'' ''<p>Hi</p>'' (calls idle_state) ?es)"
    by blast
  have a: "map (\<lambda>v. get_prop v ''email'') (r_success res)
        = [Inr (Some (JStr ''bob@example.com'')), Inr (Some (JStr ''cyd@example.com''))]"
    unfolding s c0 outs by (simp add: succeeded_def)
  have b: "map (\<lambda>v. get_prop v ''email'') (r_failure res)
        = [Inr (Some (JStr ''ann@example.com''))]"
    unfolding f c0 outs by (simp add: succeeded_def)
  show ?thesis
    by (rule exI [of _ st'], rule exI [of _ res]) (simp add: run a b)
qed

end
